theory Spec2Isabelle
  imports Main "HOL-Library.List_Lexorder" "HOL-Library.Char_ord"
begin

section \<open>JavaScript values and built-ins the sources use\<close>

text \<open>
  A JavaScript number is modelled as an unbounded integer or \<open>NaN\<close>; the sources only
  build numbers from \<^verbatim>\<open>parseInt\<close>, products and list lengths, which are exact on
  integers below \<open>2^53\<close>. Above that the code's numbers are rounded; the rounding is not
  modelled, and no statement below depends on the value of such a number.
\<close>

datatype js_number = NaN | Num int

definition js_times :: "js_number \<Rightarrow> int \<Rightarrow> js_number" where
  "js_times x k = (case x of NaN \<Rightarrow> NaN | Num n \<Rightarrow> Num (n * k))"

text \<open>
  The white space \<^verbatim>\<open>parseInt\<close> skips, among the code units below 256 that a \<open>char\<close>
  can hold: space, tab, line feed, vertical tab, form feed, carriage return and the
  no-break space. White space with a larger code unit cannot occur in these strings.
\<close>

definition is_space :: "char \<Rightarrow> bool" where
  "is_space c =
     (c \<in> set [CHR '' '', CHR 0x09, CHR 0x0A, CHR 0x0B, CHR 0x0C, CHR 0x0D, CHR 0xA0])"

definition digit_value :: "char \<Rightarrow> nat option" where
  "digit_value c =
     map_of (zip ''0123456789abcdef'' [0, 1, 2, 3, 4, 5, 6, 7, 8, 9, 10, 11, 12, 13, 14, 15]
             @ zip ''ABCDEF'' [10, 11, 12, 13, 14, 15]) c"

definition is_digit :: "nat \<Rightarrow> char \<Rightarrow> bool" where
  "is_digit radix c = (case digit_value c of Some d \<Rightarrow> d < radix | None \<Rightarrow> False)"

definition digits_value :: "nat \<Rightarrow> string \<Rightarrow> nat" where
  "digits_value radix ds =
     foldl (\<lambda>acc c. case digit_value c of Some d \<Rightarrow> acc * radix + d | None \<Rightarrow> acc) 0 ds"

text \<open>
  \<^verbatim>\<open>parseInt(str)\<close> with no radix: leading white space is skipped, a sign is read,
  \<^verbatim>\<open>0x\<close> selects radix 16, and the longest prefix of digits is the value; no digit at
  all gives \<open>NaN\<close>.
\<close>

definition parseInt :: "string \<Rightarrow> js_number" where
  "parseInt str =
     (let s = dropWhile is_space str;
          negative = (take 1 s = ''-'');
          s1 = (if take 1 s = ''-'' \<or> take 1 s = ''+'' then drop 1 s else s);
          hex = (take 2 s1 = ''0x'' \<or> take 2 s1 = ''0X'');
          radix = (if hex then 16 else 10);
          s2 = (if hex then drop 2 s1 else s1);
          ds = takeWhile (is_digit radix) s2
      in if ds = [] then NaN
         else Num ((if negative then - 1 else 1) * int (digits_value radix ds)))"

text \<open>Decimal rendering of a count inside a template string.\<close>

fun string_of_nat :: "nat \<Rightarrow> string" where
  "string_of_nat n =
     (if n < 10 then [''0123456789'' ! n]
      else string_of_nat (n div 10) @ [''0123456789'' ! (n mod 10)])"

declare string_of_nat.simps [simp del]

text \<open>
  \<^verbatim>\<open>String.prototype.toLowerCase\<close>, on the letters \<open>A\<close> to \<open>Z\<close>; every other
  character is kept (no other character lowers to an ASCII letter \<open>y\<close>).
\<close>

definition lower_char :: "char \<Rightarrow> char" where
  "lower_char c =
     (case map_of (zip ''ABCDEFGHIJKLMNOPQRSTUVWXYZ'' ''abcdefghijklmnopqrstuvwxyz'') c of
        Some l \<Rightarrow> l
      | None \<Rightarrow> c)"

definition toLowerCase :: "string \<Rightarrow> string" where
  "toLowerCase s = map lower_char s"

text \<open>
  A \<^verbatim>\<open>Set<string>\<close> keeps its members in insertion order and ignores a second
  insertion of the same member.
\<close>

definition set_add :: "'a \<Rightarrow> 'a list \<Rightarrow> 'a list" where
  "set_add x xs = (if x \<in> set xs then xs else xs @ [x])"

section \<open>Jobs and the queue library's interface\<close>

datatype job_state = Waiting | Delayed | Active | Completed | Failed

datatype error = Error string

text \<open>
  The job cleanup options, as the repository's guide lists them: a boolean, a number of
  jobs to keep, or an object with an age (in seconds) and a count.
\<close>

datatype keep_jobs = KeepBool bool | KeepCount nat | KeepPolicy "nat option" "nat option"

record job_options =
  removeOnComplete :: "keep_jobs option"
  removeOnFail :: "keep_jobs option"
  delay :: "int option"
  attempts :: "nat option"

record 'd job =
  job_id :: nat
  queue_name :: string
  job_name :: string
  job_data :: 'd
  state :: job_state
  opts :: job_options
  availableAt :: int
  attemptsMade :: nat
  maxAttempts :: nat
  createdAt :: int
  finishedAt :: "int option"

text \<open>
  \<^verbatim>\<open>queue.clean\<close> resolves to the removed jobs' ids or to their number; the command
  line tool accepts both (\<^verbatim>\<open>Array.isArray(result) ? result.length : result\<close>).
\<close>

datatype clean_result = JobIds "string list" | Removed nat

definition count_of :: "clean_result \<Rightarrow> nat" where
  "count_of result = (case result of JobIds ids \<Rightarrow> length ids | Removed n \<Rightarrow> n)"

text \<open>
  The sources call into the \<^verbatim>\<open>bullmq\<close> and \<^verbatim>\<open>ioredis\<close> packages, which are not part
  of the repository. Their operations are a parameter of the model: each call takes the
  store's state \<open>'s\<close>, may fail with an error and returns the state it leaves behind.
  The five counters \<^verbatim>\<open>getWaitingCount\<close>, \<^verbatim>\<open>getActiveCount\<close>, \<^verbatim>\<open>getCompletedCount\<close>,
  \<^verbatim>\<open>getFailedCount\<close> and \<^verbatim>\<open>getDelayedCount\<close> are one field indexed by the state.
\<close>

type_synonym ('a, 's) call = "'s \<Rightarrow> (error + 'a) \<times> 's"

record ('d, 's) queue_api =
  redis_keys :: "string \<Rightarrow> (string list, 's) call"
  new_Queue :: "string \<Rightarrow> (unit, 's) call"
  queue_getCount :: "job_state \<Rightarrow> string \<Rightarrow> (nat, 's) call"
  queue_clean :: "js_number \<Rightarrow> string \<Rightarrow> string \<Rightarrow> (clean_result, 's) call"
  queue_drain :: "bool option \<Rightarrow> string \<Rightarrow> (unit, 's) call"
  queue_add :: "string \<Rightarrow> string \<Rightarrow> 'd \<Rightarrow> job_options \<Rightarrow> ('d job, 's) call"

section \<open>Programs: store, console, exceptions and process exit\<close>

datatype cell = Text string | Number nat

type_synonym table_row = "(string \<times> cell) list"

datatype console_line =
    Log string
  | LogError error
  | LogInvalid "string list"
  | Table "table_row list"
  | Question string

record 's world =
  redis :: 's
  console :: "console_line list"
  connected :: bool

text \<open>
  An asynchronous function either returns, throws, or ends the process with
  \<^verbatim>\<open>process.exit(code)\<close>, after which nothing of the program runs.
\<close>

datatype 'a result = Returned 'a | Threw error | Exited nat

type_synonym ('a, 's) prog = "'s world \<Rightarrow> 'a result \<times> 's world"

definition resolve :: "'a \<Rightarrow> ('a, 's) prog" where
  "resolve a = (\<lambda>w. (Returned a, w))"

definition seq :: "('a, 's) prog \<Rightarrow> ('a \<Rightarrow> ('b, 's) prog) \<Rightarrow> ('b, 's) prog" where
  "seq m f =
     (\<lambda>w. case m w of
            (Returned a, w') \<Rightarrow> f a w'
          | (Threw e, w') \<Rightarrow> (Threw e, w')
          | (Exited n, w') \<Rightarrow> (Exited n, w'))"

definition try_catch :: "('a, 's) prog \<Rightarrow> (error \<Rightarrow> ('a, 's) prog) \<Rightarrow> ('a, 's) prog" where
  "try_catch m handler =
     (\<lambda>w. case m w of
            (Threw e, w') \<Rightarrow> handler e w'
          | (Returned a, w') \<Rightarrow> (Returned a, w')
          | (Exited n, w') \<Rightarrow> (Exited n, w'))"

definition process_exit :: "nat \<Rightarrow> ('a, 's) prog" where
  "process_exit code = (\<lambda>w. (Exited code, w))"

definition console_put :: "console_line \<Rightarrow> (unit, 's) prog" where
  "console_put x = (\<lambda>w. (Returned (), w\<lparr>console := console w @ [x]\<rparr>))"

definition await :: "('a, 's) call \<Rightarrow> ('a, 's) prog" where
  "await c =
     (\<lambda>w. case c (redis w) of
            (Inl e, s') \<Rightarrow> (Threw e, w\<lparr>redis := s'\<rparr>)
          | (Inr a, s') \<Rightarrow> (Returned a, w\<lparr>redis := s'\<rparr>))"

text \<open>
  \<^verbatim>\<open>connection.quit()\<close> and \<^verbatim>\<open>queue.close()\<close> end the connection; closing is taken to
  succeed and to leave the store as it is.
\<close>

definition connection_quit :: "(unit, 's) prog" where
  "connection_quit = (\<lambda>w. (Returned (), w\<lparr>connected := False\<rparr>))"

definition queue_close :: "string \<Rightarrow> (unit, 's) prog" where
  "queue_close queue = resolve ()"


text \<open>
  \<^verbatim>\<open>Promise.all\<close> over calls: every call is issued; if one fails the promise rejects
  with the first failure (taken in the order of the array), otherwise it resolves to the
  results in order.
\<close>

fun settle_all :: "('a, 's) call list \<Rightarrow> 's \<Rightarrow> (error + 'a) list \<times> 's" where
  "settle_all [] s = ([], s)"
| "settle_all (c # cs) s =
     (case c s of (r, s1) \<Rightarrow> (case settle_all cs s1 of (rs, s2) \<Rightarrow> (r # rs, s2)))"

definition promise_all :: "('a, 's) call list \<Rightarrow> ('a list, 's) prog" where
  "promise_all calls =
     (\<lambda>w. case settle_all calls (redis w) of
            (rs, s') \<Rightarrow>
              (case [e. Inl e \<leftarrow> rs] of
                 e # _ \<Rightarrow> (Threw e, w\<lparr>redis := s'\<rparr>)
               | [] \<Rightarrow> (Returned [a. Inr a \<leftarrow> rs], w\<lparr>redis := s'\<rparr>)))"

section \<open>The command line tool (src/cli/queue.cli.ts)\<close>

definition getQueue :: "('d, 's) queue_api \<Rightarrow> string \<Rightarrow> (string, 's) prog" where
  "getQueue api queueName = seq (await (new_Queue api queueName)) (\<lambda>_. resolve queueName)"

text \<open>
  The match of \<^verbatim>\<open>/^bull:([^:]+):/\<close> against a key: the text \<^verbatim>\<open>bull:\<close>, then one or more
  characters other than a colon (the captured group), then a colon.
\<close>

definition key_queue_name :: "string \<Rightarrow> string option" where
  "key_queue_name key =
     (if take 5 key = ''bull:'' then
        (case dropWhile (\<lambda>c. c \<noteq> CHR '':'') (drop 5 key) of
           [] \<Rightarrow> None
         | _ # _ \<Rightarrow>
             (case takeWhile (\<lambda>c. c \<noteq> CHR '':'') (drop 5 key) of
                [] \<Rightarrow> None
              | c # cs \<Rightarrow> Some (c # cs)))
      else None)"

fun collect_names :: "string list \<Rightarrow> string list \<Rightarrow> string list" where
  "collect_names [] queueNames = queueNames"
| "collect_names (key # keys) queueNames =
     (case key_queue_name key of
        Some name \<Rightarrow> collect_names keys (set_add name queueNames)
      | None \<Rightarrow> collect_names keys queueNames)"

definition getQueueNames :: "('d, 's) queue_api \<Rightarrow> (string list, 's) prog" where
  "getQueueNames api =
     seq (await (redis_keys api ''bull:*'')) (\<lambda>keys.
     resolve (sort (collect_names keys [])))"

definition showStatus :: "('d, 's) queue_api \<Rightarrow> string \<Rightarrow> (table_row, 's) prog" where
  "showStatus api queue =
     seq (promise_all
            (map (\<lambda>st. queue_getCount api st queue)
               [Waiting, Active, Completed, Failed, Delayed])) (\<lambda>counts.
     resolve
       (zip [''Waiting Jobs'', ''Active Jobs'', ''Completed Jobs'', ''Failed Jobs'',
             ''Delayed Jobs'']
          (map Number counts)))"

text \<open>The \<^verbatim>\<open>catch\<close> block every command shares.\<close>

definition on_error :: "error \<Rightarrow> (unit, 's) prog" where
  "on_error error =
     seq (console_put (LogError error)) (\<lambda>_.
     seq connection_quit (\<lambda>_.
     process_exit 1))"

fun list_details ::
  "('d, 's) queue_api \<Rightarrow> string list \<Rightarrow> table_row list \<Rightarrow> (table_row list, 's) prog" where
  "list_details api [] details = resolve details"
| "list_details api (name # names) details =
     seq (getQueue api name) (\<lambda>queue.
     seq (showStatus api queue) (\<lambda>status.
     seq (queue_close queue) (\<lambda>_.
     list_details api names (details @ [(''Queue Name'', Text name) # status]))))"

fun print_numbered :: "nat \<Rightarrow> string list \<Rightarrow> (unit, 's) prog" where
  "print_numbered index [] = resolve ()"
| "print_numbered index (name # names) =
     seq (console_put (Log (string_of_nat (index + 1) @ ''. '' @ name))) (\<lambda>_.
     print_numbered (index + 1) names)"

definition list_action :: "('d, 's) queue_api \<Rightarrow> bool \<Rightarrow> (unit, 's) prog" where
  "list_action api details =
     try_catch
       (seq (getQueueNames api) (\<lambda>queueNames.
        if length queueNames = 0 then
          seq (console_put (Log ''No queues found'')) (\<lambda>_.
          connection_quit)
        else
          seq (if details then
                 seq (console_put (Log ''Fetching queue details...\<newline>'')) (\<lambda>_.
                 seq (list_details api queueNames []) (\<lambda>rows.
                 console_put (Table rows)))
               else
                 seq (console_put (Log ''Available queues:'')) (\<lambda>_.
                 print_numbered 0 queueNames)) (\<lambda>_.
          seq connection_quit (\<lambda>_.
          process_exit 0))))
       on_error"

definition status_action :: "('d, 's) queue_api \<Rightarrow> string \<Rightarrow> (unit, 's) prog" where
  "status_action api queueName =
     try_catch
       (seq (getQueue api queueName) (\<lambda>queue.
        seq (showStatus api queue) (\<lambda>status.
        seq (console_put (Table [status])) (\<lambda>_.
        seq (queue_close queue) (\<lambda>_.
        seq connection_quit (\<lambda>_.
        process_exit 0))))))
       on_error"

definition statuses :: "string list" where
  "statuses = [''completed'', ''failed'', ''wait'', ''active'', ''delayed'']"

fun clean_each ::
  "('d, 's) queue_api \<Rightarrow> string \<Rightarrow> js_number \<Rightarrow> string list \<Rightarrow> nat \<Rightarrow> (nat, 's) prog" where
  "clean_each api queue ageInMs [] totalCount = resolve totalCount"
| "clean_each api queue ageInMs (status # rest) totalCount =
     seq (await (queue_clean api ageInMs status queue)) (\<lambda>result.
     seq (console_put
            (Log (''Cleaned '' @ string_of_nat (count_of result) @ '' '' @ status @ '' jobs''))) (\<lambda>_.
     clean_each api queue ageInMs rest (totalCount + count_of result)))"

text \<open>
  \<^verbatim>\<open>options.age\<close> has the default \<^verbatim>\<open>'24'\<close>; \<^verbatim>\<open>options.status\<close> is tested for
  truthiness, so an empty string counts as no status.
\<close>

definition clean_action ::
  "('d, 's) queue_api \<Rightarrow> string \<Rightarrow> string option \<Rightarrow> string option \<Rightarrow> (unit, 's) prog" where
  "clean_action api queueName options_status age_option =
     (let options_age = (case age_option of None \<Rightarrow> ''24'' | Some a \<Rightarrow> a) in
      try_catch
        (seq (getQueue api queueName) (\<lambda>queue.
         let ageInMs = js_times (js_times (js_times (parseInt options_age) 60) 60) 1000 in
         seq (case options_status of
                Some (c # cs) \<Rightarrow>
                  seq (await (queue_clean api ageInMs (c # cs) queue)) (\<lambda>result.
                  console_put
                    (Log (''Cleaned '' @ string_of_nat (count_of result) @ '' '' @ (c # cs)
                          @ '' jobs older than '' @ options_age @ '' hours'')))
              | _ \<Rightarrow>
                  seq (clean_each api queue ageInMs statuses 0) (\<lambda>totalCount.
                  console_put
                    (Log (''Total cleaned: '' @ string_of_nat totalCount @ '' jobs'')))) (\<lambda>_.
         seq (queue_close queue) (\<lambda>_.
         seq connection_quit (\<lambda>_.
         process_exit 0)))))
        on_error)"

definition drain_question :: "string \<Rightarrow> string" where
  "drain_question queueName =
     ''Are you sure you want to drain queue '' @ [CHR 0x27] @ queueName @ [CHR 0x27]
     @ ''? This will remove ALL jobs! (y/N) ''"

text \<open>
  \<open>answer\<close> is the line read from standard input; it is only read without \<^verbatim>\<open>--force\<close>.
  \<^verbatim>\<open>queue.drain()\<close> is called with no argument.
\<close>

definition drain_action ::
  "('d, 's) queue_api \<Rightarrow> string \<Rightarrow> bool \<Rightarrow> string \<Rightarrow> (unit, 's) prog" where
  "drain_action api queueName force answer =
     try_catch
       (seq (if \<not> force then
               seq (console_put (Question (drain_question queueName))) (\<lambda>_.
               if toLowerCase answer \<noteq> ''y'' then
                 seq (console_put (Log ''Operation cancelled'')) (\<lambda>_.
                 seq connection_quit (\<lambda>_.
                 process_exit 0))
               else resolve ())
             else resolve ()) (\<lambda>_.
        seq (getQueue api queueName) (\<lambda>queue.
        seq (await (queue_drain api None queue)) (\<lambda>_.
        seq (console_put
               (Log (''Queue '' @ [CHR 0x27] @ queueName @ [CHR 0x27] @ '' has been drained''))) (\<lambda>_.
        seq (queue_close queue) (\<lambda>_.
        seq connection_quit (\<lambda>_.
        process_exit 0)))))))
       on_error"

datatype command =
    List bool
  | Status string
  | Clean string "string option" "string option"
  | Drain string bool
  | Unknown "string list"

definition action :: "('d, 's) queue_api \<Rightarrow> command \<Rightarrow> string \<Rightarrow> (unit, 's) prog" where
  "action api cmd answer =
     (case cmd of
        List details \<Rightarrow> list_action api details
      | Status queueName \<Rightarrow> status_action api queueName
      | Clean queueName options_status options_age \<Rightarrow>
          clean_action api queueName options_status options_age
      | Drain queueName force \<Rightarrow> drain_action api queueName force answer
      | Unknown args \<Rightarrow>
          seq (console_put (LogInvalid args)) (\<lambda>_.
          process_exit 1))"

text \<open>
  One run of the tool on a store \<open>s\<close>, with a fresh connection and an empty console.
  The exit code is the argument of \<^verbatim>\<open>process.exit\<close>; an action that returns lets the
  process end with code 0 once the connection is closed, and keeps it running (\<open>None\<close>)
  while the connection is open; an action that throws is an unhandled rejection, which
  ends the process with code 1.
\<close>

definition run ::
  "('d, 's) queue_api \<Rightarrow> command \<Rightarrow> string \<Rightarrow> 's \<Rightarrow> nat option \<times> 's world" where
  "run api cmd answer s =
     (case action api cmd answer \<lparr>redis = s, console = [], connected = True\<rparr> of
        (Exited code, w) \<Rightarrow> (Some code, w)
      | (Returned _, w) \<Rightarrow> (if connected w then None else Some 0, w)
      | (Threw e, w) \<Rightarrow> (Some 1, w))"


section \<open>The application (src/app.module.ts, services, controller, processors)\<close>

text \<open>The options \<^verbatim>\<open>BullModule.forRoot\<close> gives every queue of the application.\<close>

definition defaultJobOptions :: job_options where
  "defaultJobOptions =
     \<lparr>removeOnComplete = Some (KeepBool True), removeOnFail = Some (KeepBool True),
      delay = Some 5000, attempts = None\<rparr>"

text \<open>A payload is an object with string fields, in the order they are written.\<close>

type_synonym payload = "(string \<times> string) list"

text \<open>
  \<^verbatim>\<open>NotificationService.createNotificationJob\<close>: its body holds comments only.
\<close>

definition createNotificationJob :: "('d, 's) queue_api \<Rightarrow> 'd \<Rightarrow> (unit, 's) prog" where
  "createNotificationJob api data = resolve ()"

text \<open>
  \<^verbatim>\<open>MailService.createMailJob\<close>, on the queue injected as \<^verbatim>\<open>'mail-queue'\<close>. The sources
  hold two texts of this method: the first adds the job \<^verbatim>\<open>'notification:1'\<close> with
  \<^verbatim>\<open>{ delay: 5000 }\<close>, the second names the job after \<^verbatim>\<open>Date.now()\<close> and passes empty
  options.
\<close>

definition createMailJob :: "('d, 's) queue_api \<Rightarrow> 'd \<Rightarrow> (unit, 's) prog" where
  "createMailJob api data =
     seq (await (queue_add api ''mail-queue'' ''notification:1'' data
                   \<lparr>removeOnComplete = None, removeOnFail = None, delay = Some 5000,
                    attempts = None\<rparr>)) (\<lambda>_.
     console_put (Log ''Mail queue job added to the queue''))"

definition createMailJob_poc :: "('d, 's) queue_api \<Rightarrow> nat \<Rightarrow> 'd \<Rightarrow> (unit, 's) prog" where
  "createMailJob_poc api date_now data =
     seq (await (queue_add api ''mail-queue'' (''poc-notification:'' @ string_of_nat date_now) data
                   \<lparr>removeOnComplete = None, removeOnFail = None, delay = None,
                    attempts = None\<rparr>)) (\<lambda>_.
     console_put (Log ''Mail queue job added to the queue''))"

text \<open>
  \<^verbatim>\<open>AppController.triggerNotificationJob\<close> (GET /trigger); \<open>now_iso\<close> is
  \<^verbatim>\<open>new Date().toISOString()\<close>.
\<close>

definition triggerNotificationJob :: "(payload, 's) queue_api \<Rightarrow> string \<Rightarrow> (string, 's) prog" where
  "triggerNotificationJob api now_iso =
     seq (createNotificationJob api
            [(''notificationType'', ''paymentDone''), (''recipientId'', ''1''),
             (''message'', ''Your payment is done''), (''createdAt'', now_iso)]) (\<lambda>_.
     seq (createMailJob api
            [(''to'', ''test@test.com''), (''subject'', ''Test''), (''message'', ''Test'')]) (\<lambda>_.
     resolve ''Job triggered successfully''))"

text \<open>
  The two processors. \<open>stringify\<close> stands for \<^verbatim>\<open>JSON.stringify(job.data, null, 2)\<close>; a
  job's data was read from its JSON text, so rendering it does not fail.
\<close>

record job_result =
  result :: string

definition MailQueueProcessor_process ::
  "('d \<Rightarrow> string) \<Rightarrow> 'd job \<Rightarrow> (job_result, 's) prog" where
  "MailQueueProcessor_process stringify job =
     seq (console_put (Log ''Mail-queue-processor'')) (\<lambda>_.
     seq (console_put (Log (''job-id:'' @ string_of_nat (job_id job)))) (\<lambda>_.
     seq (console_put (Log (''job-name:'' @ job_name job))) (\<lambda>_.
     seq (console_put (Log (''job-data:'' @ stringify (job_data job)))) (\<lambda>_.
     resolve \<lparr>result = ''Job processed successfully''\<rparr>))))"

definition NotificationQueueProcessor_process ::
  "('d \<Rightarrow> string) \<Rightarrow> 'd job \<Rightarrow> (job_result, 's) prog" where
  "NotificationQueueProcessor_process stringify job =
     seq (console_put (Log ''Notification-queue-processor'')) (\<lambda>_.
     seq (console_put (Log (''job-id:'' @ string_of_nat (job_id job)))) (\<lambda>_.
     seq (console_put (Log (''job-name:'' @ job_name job))) (\<lambda>_.
     seq (console_put (Log (''job-data:'' @ stringify (job_data job)))) (\<lambda>_.
     resolve \<lparr>result = ''Job processed successfully''\<rparr>))))"

text \<open>The handler registered for a queue (\<^verbatim>\<open>@Processor(name)\<close>).\<close>

definition processor_of ::
  "string \<Rightarrow> (('d \<Rightarrow> string) \<Rightarrow> 'd job \<Rightarrow> (job_result, 's) prog) option" where
  "processor_of queue =
     (if queue = ''mail-queue'' then Some MailQueueProcessor_process
      else if queue = ''notification-queue'' then Some NotificationQueueProcessor_process
      else None)"

section \<open>The queue engine\<close>

text \<open>
  The store the engine keeps: the jobs, the next job id, the clock (milliseconds), the
  keys of the underlying key/value store (a queue that has held a job has the key
  \<^verbatim>\<open>bull:<queue>:id\<close>) and whether the connection to the store is open. On a
  connection that has ended the client rejects every command at once with
  \<^verbatim>\<open>Connection is closed.\<close> and the store stays as it is; a connection that is still
  being retried, whose commands wait, is not modelled.
\<close>

record 'd store =
  jobs :: "'d job list"
  next_id :: nat
  clock :: int
  keyspace :: "string list"
  reachable :: bool

definition guarded :: "('d store \<Rightarrow> 'a \<times> 'd store) \<Rightarrow> ('a, 'd store) call" where
  "guarded f s =
     (if reachable s then (case f s of (a, s') \<Rightarrow> (Inr a, s'))
      else (Inl (Error ''Connection is closed.''), s))"

definition key_matches :: "string \<Rightarrow> string \<Rightarrow> bool" where
  "key_matches pattern key =
     (case rev pattern of
        c # p \<Rightarrow> if c = CHR ''*'' then take (length p) key = rev p else key = pattern
      | [] \<Rightarrow> key = pattern)"

definition engine_keys :: "string \<Rightarrow> (string list, 'd store) call" where
  "engine_keys pattern = guarded (\<lambda>s. (filter (key_matches pattern) (keyspace s), s))"

text \<open>Constructing a \<^verbatim>\<open>Queue\<close> does not send a command to the store.\<close>

definition engine_new_Queue :: "string \<Rightarrow> (unit, 'd store) call" where
  "engine_new_Queue queue = (\<lambda>s. (Inr (), s))"

definition in_state :: "string \<Rightarrow> job_state \<Rightarrow> 'd job \<Rightarrow> bool" where
  "in_state queue st j = (queue_name j = queue \<and> state j = st)"

definition engine_getCount :: "job_state \<Rightarrow> string \<Rightarrow> (nat, 'd store) call" where
  "engine_getCount st queue = guarded (\<lambda>s. (length (filter (in_state queue st) (jobs s)), s))"

text \<open>
  Modelled from the spec: the producer's \<open>enqueue\<close> (4.2, 6), which the sources reach as
  \<^verbatim>\<open>queue.add(name, data, opts)\<close> of the library. The options of the call stand over
  the queue's default options; the job starts \<open>delayed\<close> if its delay is positive, else
  \<open>waiting\<close>, and is tried once unless the options say otherwise.
\<close>

definition merge_options :: "job_options \<Rightarrow> job_options \<Rightarrow> job_options" where
  "merge_options defaults given =
     \<lparr>removeOnComplete =
        (case removeOnComplete given of Some k \<Rightarrow> Some k | None \<Rightarrow> removeOnComplete defaults),
      removeOnFail =
        (case removeOnFail given of Some k \<Rightarrow> Some k | None \<Rightarrow> removeOnFail defaults),
      delay = (case delay given of Some d \<Rightarrow> Some d | None \<Rightarrow> delay defaults),
      attempts = (case attempts given of Some n \<Rightarrow> Some n | None \<Rightarrow> attempts defaults)\<rparr>"

definition new_job ::
  "job_options \<Rightarrow> string \<Rightarrow> string \<Rightarrow> 'd \<Rightarrow> job_options \<Rightarrow> 'd store \<Rightarrow> 'd job" where
  "new_job defaults queue name data given s =
     (let options = merge_options defaults given;
          delayMs = (case delay options of Some d \<Rightarrow> d | None \<Rightarrow> 0)
      in \<lparr>job_id = next_id s, queue_name = queue, job_name = name, job_data = data,
          state = (if 0 < delayMs then Delayed else Waiting), opts = options,
          availableAt = clock s + delayMs, attemptsMade = 0,
          maxAttempts = (case attempts options of Some n \<Rightarrow> n | None \<Rightarrow> 1),
          createdAt = clock s, finishedAt = None\<rparr>)"

definition engine_add ::
  "job_options \<Rightarrow> string \<Rightarrow> string \<Rightarrow> 'd \<Rightarrow> job_options \<Rightarrow> ('d job, 'd store) call" where
  "engine_add defaults queue name data given =
     guarded (\<lambda>s.
       let j = new_job defaults queue name data given s
       in (j, s\<lparr>jobs := jobs s @ [j], next_id := next_id s + 1,
                keyspace := set_add (''bull:'' @ queue @ '':id'') (keyspace s)\<rparr>))"

text \<open>
  \<^verbatim>\<open>queue.clean\<close> as the command line tool calls it. The library's method is
  \<^verbatim>\<open>clean(grace, limit, type = 'completed')\<close>; the tool calls \<^verbatim>\<open>clean(ageInMs, status)\<close>,
  so the status text arrives as the limit. The method removes jobs in a loop guarded by
  \<^verbatim>\<open>deletedCount < maxCount\<close> with \<^verbatim>\<open>maxCount = limit\<close>; a text that is not a number
  compares false with every number, so for each status word the guard fails at once:
  no command is sent to the store, no job is removed and the result is the empty list
  of ids. The engine models the call for such a limit; a status text that reads as a
  number (none of the tool's status words does) is outside what the engine models.
\<close>

definition engine_clean ::
  "js_number \<Rightarrow> string \<Rightarrow> string \<Rightarrow> (clean_result, 'd store) call" where
  "engine_clean grace limit queue = (\<lambda>s. (Inr (JobIds []), s))"

text \<open>
  \<^verbatim>\<open>queue.drain(delayed)\<close> as the library's API reference describes it: it removes the
  jobs that are waiting, and the delayed ones when \<open>delayed\<close> is true (it is false when
  the argument is left out); active, completed and failed jobs stay.
\<close>

definition drained :: "bool option \<Rightarrow> string \<Rightarrow> 'd job \<Rightarrow> bool" where
  "drained delayed_arg queue j =
     (queue_name j = queue \<and>
      (state j = Waiting \<or> (state j = Delayed \<and> delayed_arg = Some True)))"

definition engine_drain :: "bool option \<Rightarrow> string \<Rightarrow> (unit, 'd store) call" where
  "engine_drain delayed_arg queue =
     guarded (\<lambda>s. ((), s\<lparr>jobs := filter (\<lambda>j. \<not> drained delayed_arg queue j) (jobs s)\<rparr>))"

definition engine :: "job_options \<Rightarrow> ('d, 'd store) queue_api" where
  "engine defaults =
     \<lparr>redis_keys = engine_keys, new_Queue = engine_new_Queue,
      queue_getCount = engine_getCount, queue_clean = engine_clean,
      queue_drain = engine_drain, queue_add = engine_add defaults\<rparr>"

text \<open>
  Modelled from the spec: how the dispatcher reads a handler's outcome (4.2, 4.4 step 4).
  A returned value completes the job; an error retries it while attempts are left and
  fails it otherwise. A handler that ends the worker process leaves the job active, for
  the stall recovery to find.
\<close>

datatype transition = ToCompleted job_result | ToRetry | ToFailed error | StaysActive

definition handler_transition :: "job_result result \<Rightarrow> 'd job \<Rightarrow> transition" where
  "handler_transition outcome job =
     (case outcome of
        Returned v \<Rightarrow> ToCompleted v
      | Threw e \<Rightarrow> if attemptsMade job < maxAttempts job then ToRetry else ToFailed e
      | Exited code \<Rightarrow> StaysActive)"

text \<open>
  Modelled from the spec: the retention sweeper (4.5). It scans the completed and the
  failed set of a queue, most recently finished job first, and removes every entry
  whose age exceeds the configured maximal age or whose rank exceeds the configured
  maximal count. The policy of a set is its cleanup option as the repository's guide
  lists them: \<open>true\<close> keeps no job (count 0), \<open>false\<close> or no option keeps every job, a
  number keeps that many most recent jobs, and an object has a count, an age in
  seconds, or both.
\<close>

definition job_time :: "'d job \<Rightarrow> int" where
  "job_time j = (case finishedAt j of Some t \<Rightarrow> t | None \<Rightarrow> createdAt j)"

definition policy :: "keep_jobs option \<Rightarrow> keep_jobs" where
  "policy option = (case option of None \<Rightarrow> KeepBool False | Some keep \<Rightarrow> keep)"

definition count_limit :: "keep_jobs \<Rightarrow> nat option" where
  "count_limit keep =
     (case keep of
        KeepBool b \<Rightarrow> if b then Some 0 else None
      | KeepCount n \<Rightarrow> Some n
      | KeepPolicy age n \<Rightarrow> n)"

definition max_age :: "keep_jobs \<Rightarrow> nat option" where
  "max_age keep =
     (case keep of KeepBool b \<Rightarrow> None | KeepCount n \<Rightarrow> None | KeepPolicy age n \<Rightarrow> age)"

definition exceeds_count :: "keep_jobs \<Rightarrow> nat \<Rightarrow> bool" where
  "exceeds_count keep rank = (case count_limit keep of None \<Rightarrow> False | Some n \<Rightarrow> n < rank)"

definition exceeds_age :: "keep_jobs \<Rightarrow> int \<Rightarrow> 'd job \<Rightarrow> bool" where
  "exceeds_age keep now j =
     (case max_age keep of None \<Rightarrow> False | Some a \<Rightarrow> int a * 1000 < now - job_time j)"

text \<open>The entries a scan removes; \<open>rank\<close> is the rank of the first entry of the list.\<close>

fun expired :: "keep_jobs \<Rightarrow> int \<Rightarrow> nat \<Rightarrow> 'd job list \<Rightarrow> 'd job list" where
  "expired keep now rank [] = []"
| "expired keep now rank (j # js) =
     (if exceeds_age keep now j \<or> exceeds_count keep rank
      then j # expired keep now (Suc rank) js
      else expired keep now (Suc rank) js)"

definition finished_in :: "string \<Rightarrow> job_state \<Rightarrow> 'd store \<Rightarrow> 'd job list" where
  "finished_in queue st s = filter (in_state queue st) (jobs s)"

definition most_recent_first :: "'d job list \<Rightarrow> 'd job list" where
  "most_recent_first js = rev (sort_key job_time js)"

definition sweep_set :: "keep_jobs \<Rightarrow> job_state \<Rightarrow> string \<Rightarrow> 'd store \<Rightarrow> 'd store" where
  "sweep_set keep st queue s =
     s\<lparr>jobs :=
         filter
           (\<lambda>j. j \<notin> set (expired keep (clock s) 1 (most_recent_first (finished_in queue st s))))
           (jobs s)\<rparr>"

definition sweep :: "job_options \<Rightarrow> string \<Rightarrow> 'd store \<Rightarrow> 'd store" where
  "sweep options queue s =
     sweep_set (policy (removeOnFail options)) Failed queue
       (sweep_set (policy (removeOnComplete options)) Completed queue s)"

text \<open>Sweeps at later and later times: each sweep runs after the given wait.\<close>

definition tick :: "nat \<Rightarrow> 'd store \<Rightarrow> 'd store" where
  "tick ms s = s\<lparr>clock := clock s + int ms\<rparr>"

fun sweeps :: "job_options \<Rightarrow> string \<Rightarrow> nat list \<Rightarrow> 'd store \<Rightarrow> 'd store" where
  "sweeps options queue [] s = s"
| "sweeps options queue (ms # waits) s = sweeps options queue waits (sweep options queue (tick ms s))"

text \<open>
  What the retention claim calls a job within the count limit (it is among the that
  many most recently finished jobs of its set) and a job whose age the policy permits.
\<close>

definition within_count :: "keep_jobs \<Rightarrow> 'd job list \<Rightarrow> 'd job \<Rightarrow> bool" where
  "within_count keep js j =
     (case count_limit keep of
        None \<Rightarrow> True
      | Some n \<Rightarrow> j \<in> set (take n (most_recent_first js)))"

definition within_age :: "keep_jobs \<Rightarrow> int \<Rightarrow> 'd job \<Rightarrow> bool" where
  "within_age keep now j =
     (case max_age keep of None \<Rightarrow> True | Some a \<Rightarrow> now - job_time j \<le> int a * 1000)"

text \<open>What a sweep of a queue is expected to keep.\<close>

definition kept_by :: "job_options \<Rightarrow> string \<Rightarrow> 'd store \<Rightarrow> 'd job \<Rightarrow> bool" where
  "kept_by options queue s j =
     (if in_state queue Completed j
      then within_count (policy (removeOnComplete options)) (finished_in queue Completed s) j \<and>
           within_age (policy (removeOnComplete options)) (clock s) j
      else if in_state queue Failed j
      then within_count (policy (removeOnFail options)) (finished_in queue Failed s) j \<and>
           within_age (policy (removeOnFail options)) (clock s) j
      else True)"

section \<open>Recording the failures of the library's calls\<close>

text \<open>
  To speak about "any error", an interface is run beside a log of the errors its calls
  raised: \<open>recording api\<close> behaves as \<open>api\<close> on the first component of the state and
  appends every error a call raises to the second.
\<close>

definition recorded :: "('a, 's) call \<Rightarrow> ('a, 's \<times> error list) call" where
  "recorded c =
     (\<lambda>(s, errs). case c s of
                    (Inl e, s') \<Rightarrow> (Inl e, (s', errs @ [e]))
                  | (Inr a, s') \<Rightarrow> (Inr a, (s', errs)))"

definition recording :: "('d, 's) queue_api \<Rightarrow> ('d, 's \<times> error list) queue_api" where
  "recording api =
     \<lparr>redis_keys = (\<lambda>pattern. recorded (redis_keys api pattern)),
      new_Queue = (\<lambda>queue. recorded (new_Queue api queue)),
      queue_getCount = (\<lambda>st queue. recorded (queue_getCount api st queue)),
      queue_clean = (\<lambda>grace status queue. recorded (queue_clean api grace status queue)),
      queue_drain = (\<lambda>delayed_arg queue. recorded (queue_drain api delayed_arg queue)),
      queue_add = (\<lambda>queue name data given. recorded (queue_add api queue name data given))\<rparr>"

text \<open>
  A run is \<open>quiet\<close> while no call has raised an error, and \<open>blames\<close> the first error
  raised. A program is \<open>faithful\<close> if, started quiet, it throws exactly when a call
  failed, blaming the first failure, and never exits but with code 0; \<open>closing\<close> if
  moreover it returns only with the connection closed; \<open>settled\<close> if it never throws
  and exits with code 1 exactly after printing the error it blames.
\<close>

definition quiet :: "('s \<times> error list) world \<Rightarrow> bool" where
  "quiet w = (snd (redis w) = [])"

definition blames :: "error \<Rightarrow> ('s \<times> error list) world \<Rightarrow> bool" where
  "blames e w = (\<exists>rest. snd (redis w) = e # rest)"

definition faithful :: "('a, 's \<times> error list) prog \<Rightarrow> bool" where
  "faithful m =
     (\<forall>w. quiet w \<longrightarrow>
        (case m w of
           (Returned a, w') \<Rightarrow> quiet w'
         | (Exited code, w') \<Rightarrow> quiet w' \<and> code = 0
         | (Threw e, w') \<Rightarrow> blames e w'))"

definition closing :: "('a, 's \<times> error list) prog \<Rightarrow> bool" where
  "closing m =
     (\<forall>w. quiet w \<longrightarrow>
        (case m w of
           (Returned a, w') \<Rightarrow> quiet w' \<and> \<not> connected w'
         | (Exited code, w') \<Rightarrow> quiet w' \<and> code = 0
         | (Threw e, w') \<Rightarrow> blames e w'))"

definition settled :: "('a, 's \<times> error list) prog \<Rightarrow> bool" where
  "settled m =
     (\<forall>w. quiet w \<longrightarrow>
        (case m w of
           (Returned a, w') \<Rightarrow> quiet w' \<and> \<not> connected w'
         | (Exited code, w') \<Rightarrow>
             (if code = 0 then quiet w'
              else code = 1 \<and> (\<exists>e. blames e w' \<and> last (console w') = LogError e))
         | (Threw e, w') \<Rightarrow> False))"

section \<open>Sample data\<close>

definition mail_payload :: payload where
  "mail_payload = [(''to'', ''test@test.com''), (''subject'', ''Test''), (''message'', ''Test'')]"

definition mail_options :: job_options where
  "mail_options = \<lparr>removeOnComplete = None, removeOnFail = None, delay = Some 5000, attempts = None\<rparr>"

definition no_options :: job_options where
  "no_options = \<lparr>removeOnComplete = None, removeOnFail = None, delay = None, attempts = None\<rparr>"

definition sample_job :: "nat \<Rightarrow> job_state \<Rightarrow> payload job" where
  "sample_job i st =
     \<lparr>job_id = i, queue_name = ''mail-queue'', job_name = ''notification:1'',
      job_data = [(''to'', ''test@test.com''), (''subject'', ''Test''), (''message'', ''Test'')],
      state = st, opts = defaultJobOptions, availableAt = 5000, attemptsMade = 0,
      maxAttempts = 1, createdAt = 0,
      finishedAt = (if st = Completed \<or> st = Failed then Some 6000 else None)\<rparr>"

definition five_states :: "payload store" where
  "five_states =
     \<lparr>jobs = [sample_job 1 Waiting, sample_job 2 Delayed, sample_job 3 Active,
              sample_job 4 Completed, sample_job 5 Failed],
      next_id = 6, clock = 172800000, keyspace = [''bull:mail-queue:id'', ''bull:mail-queue:1'', ''bull:mail-queue:2'',
                  ''bull:invoice-queue:meta'', ''session:42''], reachable = True\<rparr>"

definition empty_store :: "payload store" where
  "empty_store = \<lparr>jobs = [], next_id = 1, clock = 0, keyspace = [], reachable = True\<rparr>"

definition finished_store :: "payload store" where
  "finished_store =
     \<lparr>jobs = [(sample_job 1 Completed)\<lparr>finishedAt := Some 1000\<rparr>,
              (sample_job 2 Completed)\<lparr>finishedAt := Some 6000\<rparr>,
              (sample_job 3 Failed)\<lparr>finishedAt := Some 7000\<rparr>],
      next_id = 4, clock = 8000, keyspace = [''bull:mail-queue:id''], reachable = True\<rparr>"

definition keep_one_options :: job_options where
  "keep_one_options =
     \<lparr>removeOnComplete = Some (KeepPolicy (Some 3600) (Some 1)),
      removeOnFail = Some (KeepCount 5000), delay = None, attempts = None\<rparr>"


section \<open>The queue names the tool lists\<close>

lemma collect_names_distinct: "distinct acc \<Longrightarrow> distinct (collect_names keys acc)"
  by (induction keys arbitrary: acc) (auto simp: set_add_def split: option.splits)

lemma collect_names_set:
  "set (collect_names keys acc) = set acc \<union> {n. \<exists>k \<in> set keys. key_queue_name k = Some n}"
  by (induction keys arbitrary: acc) (auto simp: set_add_def split: option.splits)

text \<open>
  Claim C10. Whenever the key lookup succeeds, \<^verbatim>\<open>getQueueNames\<close> returns, and the names
  it returns hold every queue name found in a key exactly once (however many keys a queue
  has) and stand in ascending lexicographic order.
\<close>

theorem getQueueNames_sorted_distinct:
  assumes "redis_keys api ''bull:*'' (redis w) = (Inr keys, s')"
  shows "\<exists>names. getQueueNames api w = (Returned names, w\<lparr>redis := s'\<rparr>) \<and>
           distinct names \<and> sorted names \<and>
           set names = {n. \<exists>k \<in> set keys. key_queue_name k = Some n}"
  using assms
  by (simp add: getQueueNames_def seq_def await_def resolve_def collect_names_distinct
        collect_names_set)

theorem getQueueNames_sorted_distinct_witness:
  "redis_keys (engine defaultJobOptions) ''bull:*'' five_states
     = (Inr [''bull:mail-queue:id'', ''bull:mail-queue:1'', ''bull:mail-queue:2'',
             ''bull:invoice-queue:meta''], five_states) \<and>
   getQueueNames (engine defaultJobOptions)
       \<lparr>redis = five_states, console = [], connected = True\<rparr>
     = (Returned [''invoice-queue'', ''mail-queue''],
        \<lparr>redis = five_states, console = [], connected = True\<rparr>)"
proof -
  have keys: "redis_keys (engine defaultJobOptions) ''bull:*'' five_states
     = (Inr [''bull:mail-queue:id'', ''bull:mail-queue:1'', ''bull:mail-queue:2'',
             ''bull:invoice-queue:meta''], five_states)"
    by (simp add: engine_def engine_keys_def guarded_def key_matches_def five_states_def)
  have names: "sort (collect_names [''bull:mail-queue:id'', ''bull:mail-queue:1'',
                 ''bull:mail-queue:2'', ''bull:invoice-queue:meta''] [])
               = [''invoice-queue'', ''mail-queue'']"
    by code_simp
  from getQueueNames_sorted_distinct
         [of "engine defaultJobOptions" "\<lparr>redis = five_states, console = [], connected = True\<rparr>"
             "[''bull:mail-queue:id'', ''bull:mail-queue:1'', ''bull:mail-queue:2'',
               ''bull:invoice-queue:meta'']" five_states]
       keys
  obtain found where
    "getQueueNames (engine defaultJobOptions)
        \<lparr>redis = five_states, console = [], connected = True\<rparr>
      = (Returned found, \<lparr>redis = five_states, console = [], connected = True\<rparr>)"
    by auto
  moreover have "getQueueNames (engine defaultJobOptions)
        \<lparr>redis = five_states, console = [], connected = True\<rparr>
      = (Returned [''invoice-queue'', ''mail-queue''],
         \<lparr>redis = five_states, console = [], connected = True\<rparr>)"
    using keys names by (simp add: getQueueNames_def seq_def await_def resolve_def)
  ultimately show ?thesis using keys by simp
qed

section \<open>Draining without --force\<close>

lemma lower_char_y: "lower_char c = CHR ''y'' \<longleftrightarrow> c = CHR ''y'' \<or> c = CHR ''Y''"
  by (auto simp: lower_char_def split: if_splits)

lemma toLowerCase_y: "toLowerCase a = ''y'' \<longleftrightarrow> a = ''y'' \<or> a = ''Y''"
  by (cases a) (auto simp: toLowerCase_def lower_char_y)

text \<open>
  Claim C5. Without \<^verbatim>\<open>--force\<close> the drain command first asks its y/N question; on
  every answer other than \<open>y\<close> or \<open>Y\<close> it prints the cancellation message, exits with
  code 0 and leaves the store as it was: no call of the queue library is made.
\<close>

theorem drain_without_force_asks:
  "(\<exists>rest. console (snd (run api (Drain queueName False) answer s))
            = Question (drain_question queueName) # rest) \<and>
   (answer \<noteq> ''y'' \<and> answer \<noteq> ''Y'' \<longrightarrow>
      run api (Drain queueName False) answer s
        = (Some 0, \<lparr>redis = s,
                     console = [Question (drain_question queueName), Log ''Operation cancelled''],
                     connected = False\<rparr>))"
  by (auto simp: run_def action_def drain_action_def try_catch_def seq_def console_put_def
        connection_quit_def process_exit_def resolve_def toLowerCase_y getQueue_def await_def
        on_error_def queue_close_def
      split: prod.splits sum.splits result.splits)

theorem drain_without_force_asks_witness:
  "''n'' \<noteq> ''y'' \<and> ''n'' \<noteq> ''Y'' \<and>
   run (engine defaultJobOptions) (Drain ''mail-queue'' False) ''n'' five_states
     = (Some 0, \<lparr>redis = five_states,
                  console = [Question (drain_question ''mail-queue''), Log ''Operation cancelled''],
                  connected = False\<rparr>)"
  using drain_without_force_asks
          [of "engine defaultJobOptions" "''mail-queue''" "''n''" five_states]
  by simp

section \<open>Exit codes\<close>

lemma faithful_resolve: "faithful (resolve a)"
  by (simp add: faithful_def resolve_def)

lemma faithful_console_put: "faithful (console_put x)"
  by (simp add: faithful_def console_put_def quiet_def)

lemma faithful_connection_quit: "faithful connection_quit"
  by (simp add: faithful_def connection_quit_def quiet_def)

lemma faithful_queue_close: "faithful (queue_close q)"
  by (simp add: queue_close_def faithful_resolve)

lemma faithful_seq:
  fixes m :: "('a, 's \<times> error list) prog"
  assumes "faithful m" and "\<And>a. faithful (f a)"
  shows "faithful (seq m f)"
  unfolding faithful_def
proof (intro allI impI)
  fix w :: "('s \<times> error list) world"
  assume q: "quiet w"
  obtain r w' where mw: "m w = (r, w')" by (cases "m w")
  from assms(1) q mw have a: "case r of Returned a \<Rightarrow> quiet w' | Exited code \<Rightarrow> quiet w' \<and> code = 0 | Threw e \<Rightarrow> blames e w'"
    by (auto simp: faithful_def)
  show "case seq m f w of (Returned a, w') \<Rightarrow> quiet w' | (Exited code, w') \<Rightarrow> quiet w' \<and> code = 0 | (Threw e, w') \<Rightarrow> blames e w'"
  proof (cases r)
    case (Returned a)
    with a have "quiet w'" by simp
    with assms(2)[of a] have "case f a w' of (Returned a, w') \<Rightarrow> quiet w' | (Exited code, w') \<Rightarrow> quiet w' \<and> code = 0 | (Threw e, w') \<Rightarrow> blames e w'"
      by (simp add: faithful_def)
    with Returned mw show ?thesis by (simp add: seq_def)
  next
    case (Threw e)
    with a mw show ?thesis by (simp add: seq_def)
  next
    case (Exited n)
    with a mw show ?thesis by (simp add: seq_def)
  qed
qed

lemma closing_seq:
  fixes m :: "('a, 's \<times> error list) prog"
  assumes "faithful m" and "\<And>a. closing (f a)"
  shows "closing (seq m f)"
  unfolding closing_def
proof (intro allI impI)
  fix w :: "('s \<times> error list) world"
  assume q: "quiet w"
  obtain r w' where mw: "m w = (r, w')" by (cases "m w")
  from assms(1) q mw have a: "case r of Returned a \<Rightarrow> quiet w' | Exited code \<Rightarrow> quiet w' \<and> code = 0 | Threw e \<Rightarrow> blames e w'"
    by (auto simp: faithful_def)
  show "case seq m f w of (Returned a, w') \<Rightarrow> quiet w' \<and> \<not> connected w' | (Exited code, w') \<Rightarrow> quiet w' \<and> code = 0 | (Threw e, w') \<Rightarrow> blames e w'"
  proof (cases r)
    case (Returned a)
    with a have "quiet w'" by simp
    with assms(2)[of a] have "case f a w' of (Returned a, w') \<Rightarrow> quiet w' \<and> \<not> connected w' | (Exited code, w') \<Rightarrow> quiet w' \<and> code = 0 | (Threw e, w') \<Rightarrow> blames e w'"
      by (simp add: closing_def)
    with Returned mw show ?thesis by (simp add: seq_def)
  next
    case (Threw e)
    with a mw show ?thesis by (simp add: seq_def)
  next
    case (Exited n)
    with a mw show ?thesis by (simp add: seq_def)
  qed
qed

lemma closing_quit: "closing connection_quit"
  by (simp add: closing_def connection_quit_def quiet_def)

lemma closing_exit: "closing (process_exit 0)"
  by (simp add: closing_def process_exit_def)

lemma faithful_exit: "faithful (process_exit 0)"
  by (simp add: faithful_def process_exit_def)

lemma recorded_apply:
  "recorded c (s, errs) =
     (case c s of (Inl e, s') \<Rightarrow> (Inl e, (s', errs @ [e])) | (Inr a, s') \<Rightarrow> (Inr a, (s', errs)))"
  by (simp add: recorded_def)

lemma faithful_await:
  fixes c :: "('a, 'b) call"
  shows "faithful (await (recorded c))"
proof -
  have "case await (recorded c) w of (Returned a, w') \<Rightarrow> quiet w' | (Exited code, w') \<Rightarrow> quiet w' \<and> code = 0 | (Threw e, w') \<Rightarrow> blames e w'"
    if "quiet w" for w :: "('b \<times> error list) world"
  proof -
    from that have r: "redis w = (fst (redis w), [])" by (simp add: quiet_def prod_eq_iff)
    show ?thesis
      unfolding await_def
      by (subst r) (auto simp: recorded_apply quiet_def blames_def split: prod.splits sum.splits)
  qed
  then show ?thesis by (simp add: faithful_def)
qed

lemma settle_all_recorded:
  "settle_all (map recorded cs) (s, errs) =
     (fst (settle_all cs s), (snd (settle_all cs s), errs @ [e. Inl e \<leftarrow> fst (settle_all cs s)]))"
proof (induction cs arbitrary: s errs)
  case Nil
  then show ?case by simp
next
  case (Cons c cs)
  obtain r s1 where c: "c s = (r, s1)" by (cases "c s")
  obtain rs s2 where rest: "settle_all cs s1 = (rs, s2)" by (cases "settle_all cs s1")
  show ?case
  proof (cases r)
    case (Inl e)
    with c rest show ?thesis
      by (simp add: recorded_apply Cons.IH)
  next
    case (Inr a)
    with c rest show ?thesis
      by (simp add: recorded_apply Cons.IH)
  qed
qed

lemma faithful_promise_all:
  fixes cs :: "('a, 's) call list"
  shows "faithful (promise_all (map recorded cs))"
  unfolding faithful_def
proof (intro allI impI)
  fix w :: "('s \<times> error list) world"
  assume "quiet w"
  then have r: "redis w = (fst (redis w), [])" by (simp add: quiet_def prod_eq_iff)
  show "case promise_all (map recorded cs) w of (Returned a, w') \<Rightarrow> quiet w' | (Exited code, w') \<Rightarrow> quiet w' \<and> code = 0 | (Threw e, w') \<Rightarrow> blames e w'"
    unfolding promise_all_def
    by (subst r) (auto simp: settle_all_recorded quiet_def blames_def split: list.splits)
qed

lemma faithful_getQueue: "faithful (getQueue (recording api) q)"
  unfolding getQueue_def
  by (intro faithful_seq faithful_resolve) (simp add: recording_def faithful_await)

lemma faithful_getQueueNames: "faithful (getQueueNames (recording api))"
  unfolding getQueueNames_def
  by (intro faithful_seq faithful_resolve) (simp add: recording_def faithful_await)

lemma faithful_showStatus: "faithful (showStatus (recording api) q)"
proof -
  have "map (\<lambda>st. queue_getCount (recording api) st q) states
        = map recorded (map (\<lambda>st. queue_getCount api st q) states)" for states
    by (simp add: recording_def)
  then show ?thesis
    unfolding showStatus_def
    by (intro faithful_seq faithful_resolve) (simp only: faithful_promise_all)
qed

lemma faithful_list_details: "faithful (list_details (recording api) names details)"
proof (induction names arbitrary: details)
  case Nil
  then show ?case by (simp add: faithful_resolve)
next
  case (Cons name names)
  show ?case
    unfolding list_details.simps
    by (intro faithful_seq faithful_getQueue faithful_showStatus faithful_queue_close Cons.IH)
qed

lemma faithful_print_numbered: "faithful (print_numbered i names)"
proof (induction names arbitrary: i)
  case Nil
  then show ?case by (simp add: faithful_resolve)
next
  case (Cons name names)
  show ?case
    unfolding print_numbered.simps
    by (intro faithful_seq faithful_console_put Cons.IH)
qed

lemma faithful_clean_each: "faithful (clean_each (recording api) q age sts n)"
proof (induction sts arbitrary: n)
  case Nil
  then show ?case by (simp add: faithful_resolve)
next
  case (Cons st sts)
  have "faithful (await (queue_clean (recording api) age st q))"
    by (simp add: recording_def faithful_await)
  then show ?case
    unfolding clean_each.simps
    by (intro faithful_seq faithful_console_put Cons.IH)
qed

lemma on_error_apply:
  "on_error e w = (Exited 1, w\<lparr>console := console w @ [LogError e], connected := False\<rparr>)"
  by (simp add: on_error_def seq_def console_put_def connection_quit_def process_exit_def)

lemma settled_try_catch:
  fixes body :: "(unit, 's \<times> error list) prog"
  assumes "closing body"
  shows "settled (try_catch body on_error)"
  unfolding settled_def
proof (intro allI impI)
  fix w :: "('s \<times> error list) world"
  assume q: "quiet w"
  obtain r w' where b: "body w = (r, w')" by (cases "body w")
  from assms q b have c: "case r of Returned a \<Rightarrow> quiet w' \<and> \<not> connected w'
      | Exited code \<Rightarrow> quiet w' \<and> code = 0 | Threw e \<Rightarrow> blames e w'"
    by (auto simp: closing_def)
  show "case try_catch body on_error w of
           (Returned a, w') \<Rightarrow> quiet w' \<and> \<not> connected w'
         | (Exited code, w') \<Rightarrow>
             (if code = 0 then quiet w'
              else code = 1 \<and> (\<exists>e. blames e w' \<and> last (console w') = LogError e))
         | (Threw e, w') \<Rightarrow> False"
  proof (cases r)
    case (Returned a)
    with b c show ?thesis by (simp add: try_catch_def)
  next
    case (Threw e)
    with b c show ?thesis
      by (auto simp: try_catch_def on_error_apply blames_def)
  next
    case (Exited n)
    with b c show ?thesis by (simp add: try_catch_def)
  qed
qed

lemmas faithful_intros =
  faithful_seq faithful_resolve faithful_console_put faithful_connection_quit
  faithful_queue_close faithful_getQueue faithful_getQueueNames faithful_showStatus
  faithful_list_details faithful_print_numbered faithful_clean_each

lemma closing_if: "closing m1 \<Longrightarrow> closing m2 \<Longrightarrow> closing (if b then m1 else m2)"
  by simp

lemma faithful_if: "faithful m1 \<Longrightarrow> faithful m2 \<Longrightarrow> faithful (if b then m1 else m2)"
  by simp

lemma settled_list: "settled (list_action (recording api) details)"
  unfolding list_action_def
  by (intro settled_try_catch closing_seq closing_if faithful_if faithful_intros
        closing_quit closing_exit)

lemma settled_status: "settled (status_action (recording api) queueName)"
  unfolding status_action_def
  by (intro settled_try_catch closing_seq faithful_intros closing_exit)

lemma faithful_clean_one:
  "faithful (seq (await (queue_clean (recording api) age st q)) (\<lambda>result. console_put (line result)))"
proof -
  have "faithful (await (queue_clean (recording api) age st q))"
    by (simp add: recording_def faithful_await)
  then show ?thesis
    by (intro faithful_seq faithful_console_put)
qed

lemma settled_clean: "settled (clean_action (recording api) queueName options_status age_option)"
proof -
  have "faithful (case options_status of
                Some (c # cs) \<Rightarrow>
                  seq (await (queue_clean (recording api) ageInMs (c # cs) queue)) (\<lambda>result.
                  console_put (line1 c cs result))
              | _ \<Rightarrow>
                  seq (clean_each (recording api) queue ageInMs statuses 0) (\<lambda>totalCount.
                  console_put (line2 totalCount)))" for ageInMs queue line1 line2
    by (auto split: option.splits list.splits intro!: faithful_clean_one faithful_intros)
  then show ?thesis
    unfolding clean_action_def Let_def
    by (intro settled_try_catch closing_seq faithful_intros closing_exit)
qed

lemma settled_drain: "settled (drain_action (recording api) queueName force answer)"
proof -
  have d: "faithful (await (queue_drain (recording api) None q))" for q
    by (simp add: recording_def faithful_await)
  show ?thesis
    unfolding drain_action_def
    by (intro settled_try_catch closing_seq faithful_if faithful_intros faithful_exit closing_exit d)
qed

text \<open>
  Claim C7. Run beside the log of the errors its library calls raise, every command ends
  the process: with code 0 when no call failed, and with code 1 when a call failed, the
  failure being the last line printed. An unknown command prints the invalid-command
  message and exits with code 1.
\<close>

theorem exit_code_0_or_1:
  fixes api :: "('d, 's) queue_api" and s :: 's
  shows "case run (recording api) cmd answer (s, []) of
     (code, w) \<Rightarrow>
       (case cmd of
          Unknown args \<Rightarrow> code = Some 1 \<and> console w = [LogInvalid args]
        | _ \<Rightarrow>
          (case snd (redis w) of
             [] \<Rightarrow> code = Some 0
           | e # rest \<Rightarrow> code = Some 1 \<and> last (console w) = LogError e))"
proof -
  let ?w0 = "\<lparr>redis = (s, [] :: error list), console = [], connected = True\<rparr>"
  have q0: "quiet ?w0" by (simp add: quiet_def)
  have fin: "case (case m ?w0 of
        (Exited code, w) \<Rightarrow> (Some code, w)
      | (Returned _, w) \<Rightarrow> (if connected w then None else Some 0, w)
      | (Threw e, w) \<Rightarrow> (Some 1, w)) of (code, w) \<Rightarrow>
          (case snd (redis w) of
             [] \<Rightarrow> code = Some 0
           | e # rest \<Rightarrow> code = Some 1 \<and> last (console w) = LogError e)"
    if "settled m" for m :: "(unit, 's \<times> error list) prog"
  proof -
    obtain r w' where m: "m ?w0 = (r, w')" by (cases "m ?w0")
    have "case m ?w0 of
           (Returned a, w') \<Rightarrow> quiet w' \<and> \<not> connected w'
         | (Exited code, w') \<Rightarrow>
             (if code = 0 then quiet w'
              else code = 1 \<and> (\<exists>e. blames e w' \<and> last (console w') = LogError e))
         | (Threw e, w') \<Rightarrow> False"
      by (rule that[unfolded settled_def, rule_format, OF q0])
    with m show ?thesis
      by (cases r) (auto simp: quiet_def blames_def split: if_splits)
  qed
  show ?thesis
  proof (cases cmd)
    case (List details)
    with fin[OF settled_list[of api details]] show ?thesis by (simp add: run_def action_def)
  next
    case (Status q)
    with fin[OF settled_status[of api q]] show ?thesis by (simp add: run_def action_def)
  next
    case (Clean q st age)
    with fin[OF settled_clean[of api q st age]] show ?thesis by (simp add: run_def action_def)
  next
    case (Drain q force)
    with fin[OF settled_drain[of api q force answer]] show ?thesis by (simp add: run_def action_def)
  next
    case (Unknown args)
    then show ?thesis
      by (simp add: run_def action_def seq_def console_put_def process_exit_def)
  qed
qed

section \<open>The producers and the processors\<close>

text \<open>
  Claim C8. \<^verbatim>\<open>createNotificationJob\<close> returns without any call and leaves the store and
  the console as they are, for every input. So \<^verbatim>\<open>GET /trigger\<close> makes one library call,
  the \<^verbatim>\<open>add\<close> on the mail queue, and answers \<^verbatim>\<open>'Job triggered successfully'\<close> when that
  call succeeds.
\<close>

theorem createNotificationJob_is_noop:
  "createNotificationJob api data w = (Returned (), w) \<and>
   triggerNotificationJob api now_iso w =
     (case queue_add api ''mail-queue'' ''notification:1''
             [(''to'', ''test@test.com''), (''subject'', ''Test''), (''message'', ''Test'')]
             \<lparr>removeOnComplete = None, removeOnFail = None, delay = Some 5000, attempts = None\<rparr>
             (redis w) of
        (Inl e, s') \<Rightarrow> (Threw e, w\<lparr>redis := s'\<rparr>)
      | (Inr j, s') \<Rightarrow>
          (Returned ''Job triggered successfully'',
           w\<lparr>redis := s', console := console w @ [Log ''Mail queue job added to the queue'']\<rparr>))"
  by (simp add: createNotificationJob_def triggerNotificationJob_def createMailJob_def seq_def
        resolve_def await_def console_put_def split: prod.splits sum.splits)

text \<open>
  Claim C9. Both processors return \<^verbatim>\<open>{ result: 'Job processed successfully' }\<close> for
  every job and never throw, so for a job of the mail queue or the notification queue
  the dispatcher always takes the transition to \<open>completed\<close>, never a retry or a failure.
\<close>

theorem processors_always_succeed:
  "fst (MailQueueProcessor_process stringify job w) = Returned \<lparr>result = ''Job processed successfully''\<rparr> \<and>
   fst (NotificationQueueProcessor_process stringify job w) = Returned \<lparr>result = ''Job processed successfully''\<rparr> \<and>
   (case processor_of queue of
      Some handler \<Rightarrow>
        handler_transition (fst (handler stringify job w)) job
          = ToCompleted \<lparr>result = ''Job processed successfully''\<rparr>
    | None \<Rightarrow> \<not> (queue = ''mail-queue'' \<or> queue = ''notification-queue''))"
  by (simp add: MailQueueProcessor_process_def NotificationQueueProcessor_process_def
        processor_of_def handler_transition_def seq_def console_put_def resolve_def)

section \<open>Draining on the engine\<close>

text \<open>
  Claim C1, evaluated. On a queue holding one job in each of the five states,
  \<^verbatim>\<open>drain --force\<close> removes the waiting job only; the status command run afterwards
  reports one active, one completed, one failed and one delayed job. The command's
  own description ("Remove ALL jobs from queue") and the claim expect five zeros.
\<close>

theorem drain_force_leaves_jobs:
  "run (engine defaultJobOptions) (Status ''mail-queue'') ''''
     (redis (snd (run (engine defaultJobOptions) (Drain ''mail-queue'' True) '''' five_states)))
   = (Some 0,
      \<lparr>redis = five_states\<lparr>jobs := [sample_job 2 Delayed, sample_job 3 Active,
                                     sample_job 4 Completed, sample_job 5 Failed]\<rparr>,
       console = [Table [[(''Waiting Jobs'', Number 0), (''Active Jobs'', Number 1),
                          (''Completed Jobs'', Number 1), (''Failed Jobs'', Number 1),
                          (''Delayed Jobs'', Number 1)]]],
       connected = False\<rparr>)"
  by (simp add: run_def action_def drain_action_def status_action_def try_catch_def seq_def
        getQueue_def await_def engine_def engine_new_Queue_def engine_drain_def
        engine_getCount_def guarded_def drained_def in_state_def showStatus_def promise_all_def
        console_put_def queue_close_def resolve_def connection_quit_def process_exit_def
        five_states_def sample_job_def)

section \<open>Cleaning on the engine\<close>


text \<open>
  Claim C6, evaluated. All five jobs of the sample queue are older than 24 hours.
  \<^verbatim>\<open>clean mail-queue\<close>, run twice in succession, removes none of them in either run:
  the first run already reports zero for every status and in total and leaves the
  store as it was, and so does the second. The claim expects the first run to remove
  each matching job.
\<close>

theorem clean_twice_removes_nothing:
  "filter (\<lambda>j. 24 * 60 * 60 * 1000 < clock five_states - job_time j) (jobs five_states)
     = jobs five_states \<and>
   run (engine defaultJobOptions) (Clean ''mail-queue'' None None) [] five_states
     = (Some 0,
        \<lparr>redis = five_states,
         console = [Log ''Cleaned 0 completed jobs'', Log ''Cleaned 0 failed jobs'',
                    Log ''Cleaned 0 wait jobs'', Log ''Cleaned 0 active jobs'',
                    Log ''Cleaned 0 delayed jobs'', Log ''Total cleaned: 0 jobs''],
         connected = False\<rparr>) \<and>
   run (engine defaultJobOptions) (Clean ''mail-queue'' None None) []
       (redis (snd (run (engine defaultJobOptions) (Clean ''mail-queue'' None None) []
                      five_states)))
     = (Some 0,
        \<lparr>redis = five_states,
         console = [Log ''Cleaned 0 completed jobs'', Log ''Cleaned 0 failed jobs'',
                    Log ''Cleaned 0 wait jobs'', Log ''Cleaned 0 active jobs'',
                    Log ''Cleaned 0 delayed jobs'', Log ''Total cleaned: 0 jobs''],
         connected = False\<rparr>)"
  by (simp add: run_def action_def clean_action_def try_catch_def seq_def getQueue_def
        await_def engine_def engine_new_Queue_def engine_clean_def count_of_def statuses_def
        console_put_def queue_close_def resolve_def connection_quit_def process_exit_def
        five_states_def sample_job_def job_time_def string_of_nat.simps Let_def)

section \<open>The delay of the mail job\<close>

text \<open>
  Claim C3 as stated fails: the caller of \<^verbatim>\<open>createMailJob\<close> passes the payload only,
  yet the job is created with the delay 5000 and starts in the state \<open>delayed\<close>.
\<close>

theorem createMailJob_delayed_counterexample:
  "createMailJob (engine defaultJobOptions) mail_payload
     \<lparr>redis = empty_store, console = [], connected = True\<rparr>
   = (Returned (),
      \<lparr>redis = \<lparr>jobs = [\<lparr>job_id = 1, queue_name = ''mail-queue'', job_name = ''notification:1'',
                          job_data = mail_payload, state = Delayed, opts = defaultJobOptions,
                          availableAt = 5000, attemptsMade = 0, maxAttempts = 1, createdAt = 0,
                          finishedAt = None\<rparr>],
                next_id = 2, clock = 0, keyspace = [''bull:mail-queue:id''], reachable = True\<rparr>,
       console = [Log ''Mail queue job added to the queue''], connected = True\<rparr>)"
  by (simp add: createMailJob_def seq_def await_def engine_def engine_add_def guarded_def
        new_job_def merge_options_def defaultJobOptions_def empty_store_def console_put_def
        set_add_def Let_def)

text \<open>
  Claim C3, amended. \<^verbatim>\<open>createMailJob\<close> adds every job with the option
  \<^verbatim>\<open>delay: 5000\<close>, whatever the payload and whatever the queue's default options, so the
  job starts \<open>delayed\<close> and becomes available 5000 ms later; with the application's
  default options (which also set \<^verbatim>\<open>delay: 5000\<close>) a job added with empty options starts
  \<open>delayed\<close> too. In general a job starts \<open>delayed\<close> exactly if the delay in force (the
  call's, else the queue's default) is positive, and \<open>waiting\<close> otherwise.
\<close>

theorem createMailJob_hard_coded_delay:
  assumes "reachable s"
  shows "createMailJob (engine defaults) data \<lparr>redis = s, console = out, connected = c\<rparr>
     = (Returned (),
        \<lparr>redis = s\<lparr>jobs := jobs s @ [new_job defaults ''mail-queue'' ''notification:1'' data mail_options s],
                    next_id := next_id s + 1,
                    keyspace := set_add ''bull:mail-queue:id'' (keyspace s)\<rparr>,
         console = out @ [Log ''Mail queue job added to the queue''], connected = c\<rparr>) \<and>
   state (new_job defaults ''mail-queue'' ''notification:1'' data mail_options s) = Delayed \<and>
   delay (opts (new_job defaults ''mail-queue'' ''notification:1'' data mail_options s)) = Some 5000 \<and>
   availableAt (new_job defaults ''mail-queue'' ''notification:1'' data mail_options s) = clock s + 5000 \<and>
   map state (jobs (redis (snd (createMailJob_poc (engine defaultJobOptions) date_now data
                                  \<lparr>redis = s, console = out, connected = c\<rparr>))))
     = map state (jobs s) @ [Delayed] \<and>
   state (new_job defaults queue name data given s)
     = (if 0 < (case delay (merge_options defaults given) of Some d \<Rightarrow> d | None \<Rightarrow> 0)
        then Delayed else Waiting)"
  using assms
  by (simp add: createMailJob_def createMailJob_poc_def seq_def await_def engine_def
        engine_add_def guarded_def new_job_def merge_options_def defaultJobOptions_def
        console_put_def mail_options_def no_options_def Let_def)

theorem createMailJob_hard_coded_delay_witness:
  "reachable empty_store \<and>
   fst (createMailJob (engine no_options) mail_payload
          \<lparr>redis = empty_store, console = [], connected = True\<rparr>) = Returned () \<and>
   map state (jobs (redis (snd (createMailJob (engine no_options) mail_payload
          \<lparr>redis = empty_store, console = [], connected = True\<rparr>)))) = [Delayed]"
proof -
  have r: "reachable empty_store" by (simp add: empty_store_def)
  show ?thesis
    using createMailJob_hard_coded_delay
            [OF r, where defaults = no_options and data = mail_payload and out = "[]"
               and c = True and name = "''n''" and queue = "''q''" and given = no_options
               and date_now = 0]
    by (simp add: r empty_store_def)
qed

section \<open>Retention\<close>

lemma expired_subset: "set (expired keep now rank xs) \<subseteq> set xs"
  by (induction xs arbitrary: rank) auto

lemma expired_member:
  assumes "distinct xs" and "x \<in> set xs"
  shows "x \<in> set (expired keep now (Suc r) xs) \<longleftrightarrow>
           exceeds_age keep now x \<or>
           (case count_limit keep of None \<Rightarrow> False | Some n \<Rightarrow> x \<notin> set (take (n - r) xs))"
  using assms
proof (induction xs arbitrary: r)
  case Nil
  then show ?case by simp
next
  case (Cons y ys)
  show ?case
  proof (cases "x = y")
    case True
    have "y \<notin> set (expired keep now (Suc (Suc r)) ys)"
      using Cons.prems(1) expired_subset[of keep now "Suc (Suc r)" ys] by auto
    with True show ?thesis
      by (auto simp: exceeds_count_def take_Cons' split: option.splits)
  next
    case False
    with Cons.prems have x: "x \<in> set ys" and d: "distinct ys" by auto
    from Cons.IH[OF d x, of "Suc r"] False show ?thesis
      by (auto simp: take_Cons' split: option.splits)
  qed
qed

lemma most_recent_first_set [simp]: "set (most_recent_first js) = set js"
  by (simp add: most_recent_first_def)

lemma most_recent_first_distinct [simp]: "distinct (most_recent_first js) = distinct js"
  by (simp add: most_recent_first_def)

lemma most_recent_first_filter:
  "most_recent_first (filter P js) = filter P (most_recent_first js)"
  by (simp add: most_recent_first_def filter_sort rev_filter [symmetric])

lemma within_age_iff: "within_age keep now j = (\<not> exceeds_age keep now j)"
  by (auto simp: within_age_def exceeds_age_def split: option.splits)

lemma sweep_set_jobs:
  assumes "distinct (jobs s)"
  shows "jobs (sweep_set keep st queue s) =
           filter (\<lambda>j. if in_state queue st j
                        then within_count keep (finished_in queue st s) j \<and> within_age keep (clock s) j
                        else True) (jobs s)"
proof -
  let ?fin = "most_recent_first (finished_in queue st s)"
  have d: "distinct ?fin" using assms by (simp add: finished_in_def)
  have *: "j \<notin> set (expired keep (clock s) 1 ?fin) \<longleftrightarrow>
          (if in_state queue st j
           then within_count keep (finished_in queue st s) j \<and> within_age keep (clock s) j
           else True)" if "j \<in> set (jobs s)" for j
  proof (cases "in_state queue st j")
    case True
    with that have "j \<in> set ?fin" by (simp add: finished_in_def)
    from expired_member[OF d this, of keep "clock s" 0] True show ?thesis
      by (auto simp: within_count_def within_age_iff split: option.splits)
  next
    case False
    then have "j \<notin> set ?fin" by (simp add: finished_in_def)
    with expired_subset[of keep "clock s" 1 ?fin] False show ?thesis by auto
  qed
  have "filter (\<lambda>j. j \<notin> set (expired keep (clock s) 1 ?fin)) (jobs s) =
        filter (\<lambda>j. if in_state queue st j
                     then within_count keep (finished_in queue st s) j \<and> within_age keep (clock s) j
                     else True) (jobs s)"
    by (rule filter_cong[OF refl]) (rule *)
  then show ?thesis
    by (simp add: sweep_set_def)
qed

lemma take_filter_mem:
  "x \<in> set (take n xs) \<Longrightarrow> P x \<Longrightarrow> x \<in> set (take n (filter P xs))"
proof (induction xs arbitrary: n)
  case Nil
  then show ?case by simp
next
  case (Cons y ys)
  have up: "set (take m zs) \<subseteq> set (take (Suc m) zs)" for m and zs :: "'a list"
    by (rule set_take_subset_set_take) simp
  from Cons up[of _ "filter P ys"] show ?case by (cases n) auto
qed

lemma within_count_filter:
  assumes "within_count keep js j" and "P j"
  shows "within_count keep (filter P js) j"
  using assms
  by (auto simp: within_count_def most_recent_first_filter take_filter_mem split: option.splits)

lemma within_age_earlier:
  "within_age keep later j \<Longrightarrow> now \<le> later \<Longrightarrow> within_age keep now j"
  by (auto simp: within_age_def split: option.splits)

lemma sweep_jobs:
  assumes "distinct (jobs s)"
  shows "jobs (sweep options queue s) = filter (kept_by options queue s) (jobs s)"
proof -
  let ?kc = "policy (removeOnComplete options)" and ?kf = "policy (removeOnFail options)"
  let ?s1 = "sweep_set ?kc Completed queue s"
  let ?Pc = "\<lambda>j. if in_state queue Completed j
                  then within_count ?kc (finished_in queue Completed s) j \<and> within_age ?kc (clock s) j
                  else True"
  have j1: "jobs ?s1 = filter ?Pc (jobs s)" by (rule sweep_set_jobs[OF assms])
  have d1: "distinct (jobs ?s1)" using assms by (simp add: j1)
  have c1: "clock ?s1 = clock s" by (simp add: sweep_set_def)
  have f1: "finished_in queue Failed ?s1 = finished_in queue Failed s"
    unfolding finished_in_def j1
    by (simp, rule filter_cong) (auto simp: in_state_def)
  have "jobs (sweep options queue s) =
          filter (\<lambda>j. if in_state queue Failed j
                       then within_count ?kf (finished_in queue Failed s) j \<and> within_age ?kf (clock s) j
                       else True) (filter ?Pc (jobs s))"
    unfolding sweep_def by (simp only: sweep_set_jobs[OF d1] f1 c1 j1)
  also have "\<dots> = filter (kept_by options queue s) (jobs s)"
    by (simp, rule filter_cong) (auto simp: kept_by_def in_state_def)
  finally show ?thesis .
qed

lemma sweeps_keep:
  assumes "distinct (map job_id (jobs s))" and "j \<in> set (jobs s)"
    and "in_state queue Completed j"
    and "within_count (policy (removeOnComplete options)) (finished_in queue Completed s) j"
    and "within_age (policy (removeOnComplete options)) (clock s + int (sum_list waits)) j"
  shows "j \<in> set (jobs (sweeps options queue waits s))"
  using assms
proof (induction waits arbitrary: s)
  case Nil
  then show ?case by simp
next
  case (Cons ms waits)
  let ?kc = "policy (removeOnComplete options)"
  let ?t = "tick ms s"
  let ?s' = "sweep options queue ?t"
  have dt: "distinct (jobs ?t)" using Cons.prems(1) by (simp add: tick_def distinct_map)
  have jobs': "jobs ?s' = filter (kept_by options queue ?t) (jobs s)"
    using sweep_jobs[OF dt, of options queue] by (simp add: tick_def)
  have fin: "finished_in queue Completed ?t = finished_in queue Completed s"
    by (simp add: finished_in_def tick_def)
  have age: "within_age ?kc (clock ?t) j"
    using Cons.prems(5) by (rule within_age_earlier) (simp add: tick_def)
  have kept: "kept_by options queue ?t j"
    using Cons.prems(3,4) age by (simp add: kept_by_def fin)
  have 1: "distinct (map job_id (jobs ?s'))"
    using Cons.prems(1) by (simp add: jobs' distinct_map_filter)
  have 2: "j \<in> set (jobs ?s')" using Cons.prems(2) kept by (simp add: jobs')
  have "finished_in queue Completed ?s' = filter (kept_by options queue ?t) (finished_in queue Completed s)"
    by (auto simp: finished_in_def jobs' intro: filter_cong)
  with Cons.prems(4) kept
  have 4: "within_count ?kc (finished_in queue Completed ?s') j"
    by (simp add: within_count_filter)
  have "clock ?s' = clock s + int ms" by (simp add: sweep_def sweep_set_def tick_def)
  with Cons.prems(5)
  have 5: "within_age ?kc (clock ?s' + int (sum_list waits)) j" by (simp add: add.assoc)
  from Cons.IH[OF 1 2 Cons.prems(3) 4 5] show ?case by simp
qed

text \<open>
  Claim C4. In a store whose jobs have distinct ids, a sweep of a queue keeps exactly
  the jobs that are not finished jobs of the queue and the finished ones that are
  within the count limit and the maximal age of their set's policy: only jobs exceeding
  a threshold are removed. A completed job that is within the count limit survives
  every sequence of sweeps, however long and with whatever waits between them (no
  other job finishes meanwhile), as long as its age at the last sweep does not exceed
  the maximal age; with no maximal age configured it survives for ever. (With the application's \<^verbatim>\<open>removeOnComplete: true\<close> the
  count limit is 0, no job is within it, and a sweep leaves no completed job.)
\<close>

theorem completed_job_within_limits_survives:
  assumes "distinct (map job_id (jobs s))"
  shows "jobs (sweep options queue s) = filter (kept_by options queue s) (jobs s) \<and>
         (j \<in> set (jobs s) \<and> in_state queue Completed j \<and>
          within_count (policy (removeOnComplete options)) (finished_in queue Completed s) j \<and>
          within_age (policy (removeOnComplete options)) (clock s + int (sum_list waits)) j
          \<longrightarrow> j \<in> set (jobs (sweeps options queue waits s))) \<and>
         finished_in queue Completed (sweep defaultJobOptions queue s) = []"
proof -
  from assms have d: "distinct (jobs s)" by (simp add: distinct_map)
  have none: "\<not> (in_state queue Completed x \<and> kept_by defaultJobOptions queue s x)" for x
    by (simp add: kept_by_def within_count_def count_limit_def policy_def defaultJobOptions_def)
  have "finished_in queue Completed (sweep defaultJobOptions queue s) = []"
    unfolding finished_in_def sweep_jobs[OF d]
    using none by (auto simp: filter_empty_conv)
  with sweep_jobs[OF d, of options queue] sweeps_keep[OF assms, of j queue options waits]
  show ?thesis by blast
qed

theorem completed_job_within_limits_survives_witness:
  "distinct (map job_id (jobs finished_store)) \<and>
   (sample_job 2 Completed)\<lparr>finishedAt := Some 6000\<rparr> \<in> set (jobs finished_store) \<and>
   in_state ''mail-queue'' Completed ((sample_job 2 Completed)\<lparr>finishedAt := Some 6000\<rparr>) \<and>
   within_count (policy (removeOnComplete keep_one_options))
     (finished_in ''mail-queue'' Completed finished_store)
     ((sample_job 2 Completed)\<lparr>finishedAt := Some 6000\<rparr>) \<and>
   within_age (policy (removeOnComplete keep_one_options))
     (clock finished_store + int (sum_list [1000, 2000]))
     ((sample_job 2 Completed)\<lparr>finishedAt := Some 6000\<rparr>) \<and>
   jobs (sweep keep_one_options ''mail-queue'' finished_store)
     = [(sample_job 2 Completed)\<lparr>finishedAt := Some 6000\<rparr>,
        (sample_job 3 Failed)\<lparr>finishedAt := Some 7000\<rparr>] \<and>
   (sample_job 2 Completed)\<lparr>finishedAt := Some 6000\<rparr>
     \<in> set (jobs (sweeps keep_one_options ''mail-queue'' [1000, 2000] finished_store))"
proof -
  let ?j = "(sample_job 2 Completed)\<lparr>finishedAt := Some 6000\<rparr>"
  have d: "distinct (map job_id (jobs finished_store))"
    by (simp add: finished_store_def sample_job_def)
  have m: "?j \<in> set (jobs finished_store)"
    by (simp add: finished_store_def)
  have c: "in_state ''mail-queue'' Completed ?j"
    by (simp add: in_state_def sample_job_def)
  have order: "most_recent_first (finished_in ''mail-queue'' Completed finished_store)
               = [?j, (sample_job 1 Completed)\<lparr>finishedAt := Some 1000\<rparr>]"
    by (simp add: most_recent_first_def finished_in_def finished_store_def in_state_def
          sample_job_def job_time_def)
  have w: "within_count (policy (removeOnComplete keep_one_options))
             (finished_in ''mail-queue'' Completed finished_store) ?j"
    by (simp add: within_count_def count_limit_def policy_def keep_one_options_def order)
  have a: "within_age (policy (removeOnComplete keep_one_options))
             (clock finished_store + int (sum_list [1000, 2000])) ?j"
    by (simp add: within_age_def max_age_def policy_def keep_one_options_def
          finished_store_def sample_job_def job_time_def)
  have failed: "most_recent_first (finished_in ''mail-queue'' Failed finished_store)
                = [(sample_job 3 Failed)\<lparr>finishedAt := Some 7000\<rparr>]"
    by (simp add: most_recent_first_def finished_in_def finished_store_def in_state_def
          sample_job_def job_time_def)
  have js: "jobs finished_store
            = [(sample_job 1 Completed)\<lparr>finishedAt := Some 1000\<rparr>, ?j,
               (sample_job 3 Failed)\<lparr>finishedAt := Some 7000\<rparr>]"
    by (simp add: finished_store_def)
  have now: "clock finished_store = 8000"
    by (simp add: finished_store_def)
  have k: "filter (kept_by keep_one_options ''mail-queue'' finished_store) (jobs finished_store)
           = [?j, (sample_job 3 Failed)\<lparr>finishedAt := Some 7000\<rparr>]"
    unfolding js
    by (simp add: kept_by_def within_count_def within_age_def count_limit_def max_age_def
          policy_def keep_one_options_def order failed now in_state_def sample_job_def job_time_def)
  note t = completed_job_within_limits_survives
             [OF d, where options = keep_one_options and queue = "''mail-queue''" and j = ?j
                and waits = "[1000, 2000]"]
  from t have s1: "jobs (sweep keep_one_options ''mail-queue'' finished_store)
                   = [?j, (sample_job 3 Failed)\<lparr>finishedAt := Some 7000\<rparr>]"
    unfolding k by (rule conjunct1)
  from t m c w a
  have s2: "?j \<in> set (jobs (sweeps keep_one_options ''mail-queue'' [1000, 2000] finished_store))"
    by blast
  from d m c w a s1 s2 show ?thesis by blast
qed

end
